theory Spec2Isabelle
  imports Main "HOL-Library.Sublist" "HOL-Library.Word"
begin

unbundle bit_operations_syntax

section \<open>JavaScript primitives used by the operations\<close>

text \<open>
  \<^verbatim>\<open>String.prototype.indexOf(searchString)\<close>: the index of the first occurrence of
  the search string, or \<open>-1\<close> when there is none. The search starts at index 0 and moves
  right one position at a time; the empty search string is found at once.
\<close>

fun indexOf_from :: "string \<Rightarrow> string \<Rightarrow> nat \<Rightarrow> int" where
  "indexOf_from [] pat k = (if pat = [] then int k else - 1)"
| "indexOf_from (c # cs) pat k =
     (if prefix pat (c # cs) then int k else indexOf_from cs pat (Suc k))"

definition indexOf :: "string \<Rightarrow> string \<Rightarrow> int" where
  "indexOf s pat = indexOf_from s pat 0"

text \<open>
  \<^verbatim>\<open>Array.prototype.indexOf(x) > -1\<close> on an array of strings: whether the array holds
  the string. The index itself is kept, as the source compares it with \<open>-1\<close>.
\<close>

fun array_indexOf_from :: "'a list \<Rightarrow> 'a \<Rightarrow> nat \<Rightarrow> int" where
  "array_indexOf_from [] x k = - 1"
| "array_indexOf_from (y # ys) x k = (if y = x then int k else array_indexOf_from ys x (Suc k))"

definition array_indexOf :: "'a list \<Rightarrow> 'a \<Rightarrow> int" where
  "array_indexOf xs x = array_indexOf_from xs x 0"

section \<open>File type details\<close>

text \<open>
  The object that file type detection yields. \<^verbatim>\<open>ScanForEmbeddedFiles.run\<close> reads
  \<^verbatim>\<open>extension\<close>, \<^verbatim>\<open>mime\<close> and \<^verbatim>\<open>description\<close>; the image operations read
  \<^verbatim>\<open>mime\<close> only. The description may be missing (\<^verbatim>\<open>undefined\<close>), which the source
  guards against, so it is an option.
\<close>

record file_details =
  extension :: string
  mime :: string
  description :: "string option"

type_synonym byteArray = "8 word list"

section \<open>Errors\<close>

text \<open>
  \<^verbatim>\<open>OperationError\<close> is the repository's own exception class, carrying a message.
  Anything that the image library throws is a foreign exception; the model keeps what
  \<^verbatim>\<open>String(err)\<close> gives for it, which is all that the source ever reads of it.
\<close>

datatype js_error = OperationError string | ForeignError string

section \<open>The image library\<close>

text \<open>
  \<^verbatim>\<open>jimp\<close> is an external library. The operations call \<^verbatim>\<open>jimp.read\<close>, one method
  that transforms the image in place, and \<^verbatim>\<open>getBufferAsync\<close>. Each call either throws
  (rejects) or yields a value, so each is a function into a sum whose left side is the
  stringified exception. Numbers given by the user stay abstract (\<open>'n\<close>).
\<close>

record ('img, 'n) jimp =
  jimp_read :: "byteArray \<Rightarrow> string + 'img"
  jimp_blur :: "'img \<Rightarrow> 'n \<Rightarrow> string + 'img"
  jimp_gaussian :: "'img \<Rightarrow> 'n \<Rightarrow> string + 'img"
  jimp_rotate :: "'img \<Rightarrow> 'n \<Rightarrow> string + 'img"
  jimp_cover :: "'img \<Rightarrow> 'n \<Rightarrow> 'n \<Rightarrow> 32 word \<Rightarrow> string option \<Rightarrow> string + 'img"
  jimp_getBufferAsync :: "'img \<Rightarrow> string + byteArray"
  RESIZE_NEAREST_NEIGHBOR :: string
  RESIZE_BILINEAR :: string
  RESIZE_BICUBIC :: string
  RESIZE_HERMITE :: string
  RESIZE_BEZIER :: string
  HORIZONTAL_ALIGN_LEFT :: "32 word"
  HORIZONTAL_ALIGN_CENTER :: "32 word"
  HORIZONTAL_ALIGN_RIGHT :: "32 word"
  VERTICAL_ALIGN_TOP :: "32 word"
  VERTICAL_ALIGN_MIDDLE :: "32 word"
  VERTICAL_ALIGN_BOTTOM :: "32 word"

text \<open>
  What an operation did besides returning: every call into the image library and every
  status message sent to the worker's owner, in order.
\<close>

datatype effect =
    Read
  | Blur
  | Gaussian
  | Rotate
  | Cover
  | GetBuffer
  | StatusMessage string

type_synonym 'a outcome = "(js_error + 'a) \<times> effect list"

text \<open>The test \<^verbatim>\<open>type && type.mime.indexOf("image") === 0\<close> of the three operations.\<close>

definition mime_is_image :: "file_details option \<Rightarrow> bool" where
  "mime_is_image type =
     (case type of None \<Rightarrow> False | Some t \<Rightarrow> indexOf (mime t) ''image'' = 0)"

subsection \<open>Cover Image\<close>

definition resizeMap :: "('img, 'n, 'x) jimp_scheme \<Rightarrow> string \<Rightarrow> string option" where
  "resizeMap J alg =
     (if alg = ''Nearest Neighbour'' then Some (RESIZE_NEAREST_NEIGHBOR J)
      else if alg = ''Bilinear'' then Some (RESIZE_BILINEAR J)
      else if alg = ''Bicubic'' then Some (RESIZE_BICUBIC J)
      else if alg = ''Hermite'' then Some (RESIZE_HERMITE J)
      else if alg = ''Bezier'' then Some (RESIZE_BEZIER J)
      else None)"

definition alignMap :: "('img, 'n, 'x) jimp_scheme \<Rightarrow> string \<Rightarrow> 32 word option" where
  "alignMap J a =
     (if a = ''Left'' then Some (HORIZONTAL_ALIGN_LEFT J)
      else if a = ''Center'' then Some (HORIZONTAL_ALIGN_CENTER J)
      else if a = ''Right'' then Some (HORIZONTAL_ALIGN_RIGHT J)
      else if a = ''Top'' then Some (VERTICAL_ALIGN_TOP J)
      else if a = ''Middle'' then Some (VERTICAL_ALIGN_MIDDLE J)
      else if a = ''Bottom'' then Some (VERTICAL_ALIGN_BOTTOM J)
      else None)"

text \<open>\<^verbatim>\<open>a | b\<close> on two map lookups: a missing key is \<^verbatim>\<open>undefined\<close>, which \<^verbatim>\<open>|\<close> reads as 0.\<close>

definition js_bitor :: "32 word option \<Rightarrow> 32 word option \<Rightarrow> 32 word" where
  "js_bitor a b = (case a of None \<Rightarrow> 0 | Some x \<Rightarrow> x) OR (case b of None \<Rightarrow> 0 | Some y \<Rightarrow> y)"

definition CoverImage_run ::
  "(byteArray \<Rightarrow> file_details option) \<Rightarrow> ('img, 'n, 'x) jimp_scheme \<Rightarrow> bool \<Rightarrow>
   byteArray \<Rightarrow> 'n \<Rightarrow> 'n \<Rightarrow> string \<Rightarrow> string \<Rightarrow> string \<Rightarrow> byteArray outcome" where
  "CoverImage_run magicFileType J is_worker input width height hAlign vAlign alg =
     (let type = magicFileType input in
      if \<not> mime_is_image type then (Inl (OperationError ''Invalid file type.''), [])
      else
        (case jimp_read J input of
           Inl err \<Rightarrow> (Inl (ForeignError err), [Read])
         | Inr img \<Rightarrow>
             (let msg = (if is_worker then [StatusMessage ''Covering image...''] else []) in
              case jimp_cover J img width height
                     (js_bitor (alignMap J hAlign) (alignMap J vAlign)) (resizeMap J alg) of
                Inl err \<Rightarrow> (Inl (ForeignError err), [Read] @ msg @ [Cover])
              | Inr img' \<Rightarrow>
                  (case jimp_getBufferAsync J img' of
                     Inl err \<Rightarrow> (Inl (ForeignError err), [Read] @ msg @ [Cover, GetBuffer])
                   | Inr imageBuffer \<Rightarrow> (Inr imageBuffer, [Read] @ msg @ [Cover, GetBuffer])))))"

subsection \<open>Rotate Image\<close>

definition RotateImage_run ::
  "(byteArray \<Rightarrow> file_details option) \<Rightarrow> ('img, 'n, 'x) jimp_scheme \<Rightarrow> bool \<Rightarrow>
   byteArray \<Rightarrow> 'n \<Rightarrow> byteArray outcome" where
  "RotateImage_run magicFileType J is_worker input degrees =
     (let type = magicFileType input in
      if mime_is_image type then
        (case jimp_read J input of
           Inl err \<Rightarrow> (Inl (ForeignError err), [Read])
         | Inr img \<Rightarrow>
             (let msg = (if is_worker then [StatusMessage ''Rotating image...''] else []) in
              case jimp_rotate J img degrees of
                Inl err \<Rightarrow> (Inl (ForeignError err), [Read] @ msg @ [Rotate])
              | Inr img' \<Rightarrow>
                  (case jimp_getBufferAsync J img' of
                     Inl err \<Rightarrow> (Inl (ForeignError err), [Read] @ msg @ [Rotate, GetBuffer])
                   | Inr imageBuffer \<Rightarrow> (Inr imageBuffer, [Read] @ msg @ [Rotate, GetBuffer]))))
      else (Inl (OperationError ''Invalid file type.''), []))"

subsection \<open>Blur Image\<close>

text \<open>
  The \<^verbatim>\<open>switch\<close> on the blur type has no default: any other string leaves the image as
  it was read. Both \<^verbatim>\<open>try\<close> blocks turn whatever was thrown into an
  \<^verbatim>\<open>OperationError\<close> whose message embeds the stringified exception.
\<close>

definition blur_switch ::
  "('img, 'n, 'x) jimp_scheme \<Rightarrow> bool \<Rightarrow> 'img \<Rightarrow> 'n \<Rightarrow> string \<Rightarrow> (string + 'img) \<times> effect list" where
  "blur_switch J is_worker img blurAmount blurType =
     (if blurType = ''Fast'' then (jimp_blur J img blurAmount, [Blur])
      else if blurType = ''Gaussian'' then
        (jimp_gaussian J img blurAmount,
         (if is_worker
          then [StatusMessage ''Gaussian blurring image. This will take a while...'']
          else []) @ [Gaussian])
      else (Inr img, []))"

definition BlurImage_run ::
  "(byteArray \<Rightarrow> file_details option) \<Rightarrow> ('img, 'n, 'x) jimp_scheme \<Rightarrow> bool \<Rightarrow>
   byteArray \<Rightarrow> 'n \<Rightarrow> string \<Rightarrow> byteArray outcome" where
  "BlurImage_run magicFileType J is_worker input blurAmount blurType =
     (let type = magicFileType input in
      if mime_is_image type then
        (case jimp_read J input of
           Inl err \<Rightarrow>
             (Inl (OperationError (''Error loading image. ('' @ err @ '')'')), [Read])
         | Inr img \<Rightarrow>
             (case blur_switch J is_worker img blurAmount blurType of
                (Inl err, effs) \<Rightarrow>
                  (Inl (OperationError (''Error blurring image. ('' @ err @ '')'')),
                   [Read] @ effs)
              | (Inr img', effs) \<Rightarrow>
                  (case jimp_getBufferAsync J img' of
                     Inl err \<Rightarrow>
                       (Inl (OperationError (''Error blurring image. ('' @ err @ '')'')),
                        [Read] @ effs @ [GetBuffer])
                   | Inr imageBuffer \<Rightarrow> (Inr imageBuffer, [Read] @ effs @ [GetBuffer]))))
      else (Inl (OperationError ''Invalid file type.''), []))"

text \<open>
  The claim's wording: file type detection identifies a type whose mime string starts
  with \<^verbatim>\<open>image\<close>.
\<close>

definition identifies_image :: "file_details option \<Rightarrow> bool" where
  "identifies_image type = (\<exists>t. type = Some t \<and> prefix ''image'' (mime t))"

text \<open>A library whose every call succeeds and changes nothing, for concrete runs.\<close>

definition plain_jimp :: "(byteArray, int) jimp" where
  "plain_jimp =
     \<lparr> jimp_read = (\<lambda>b. Inr b),
       jimp_blur = (\<lambda>i n. Inr i),
       jimp_gaussian = (\<lambda>i n. Inr i),
       jimp_rotate = (\<lambda>i n. Inr i),
       jimp_cover = (\<lambda>i w h a m. Inr i),
       jimp_getBufferAsync = (\<lambda>i. Inr i),
       RESIZE_NEAREST_NEIGHBOR = ''nearestNeighbor'',
       RESIZE_BILINEAR = ''bilinearInterpolation'',
       RESIZE_BICUBIC = ''bicubicInterpolation'',
       RESIZE_HERMITE = ''hermiteInterpolation'',
       RESIZE_BEZIER = ''bezierInterpolation'',
       HORIZONTAL_ALIGN_LEFT = 1,
       HORIZONTAL_ALIGN_CENTER = 2,
       HORIZONTAL_ALIGN_RIGHT = 4,
       VERTICAL_ALIGN_TOP = 8,
       VERTICAL_ALIGN_MIDDLE = 16,
       VERTICAL_ALIGN_BOTTOM = 32 \<rparr>"

text \<open>
  A detector for concrete runs: it knows the first two bytes of a JPEG file and of a
  ZIP archive, and nothing else.
\<close>

definition two_byte_detector :: "byteArray \<Rightarrow> file_details option" where
  "two_byte_detector input =
     (if take 2 input = [0xFF, 0xD8]
      then Some \<lparr> extension = ''jpg'', mime = ''image/jpeg'', description = Some '''' \<rparr>
      else if take 2 input = [0x50, 0x4B]
      then Some \<lparr> extension = ''zip'', mime = ''application/zip'', description = Some '''' \<rparr>
      else None)"

section \<open>Scan for Embedded Files\<close>

text \<open>
  \<^verbatim>\<open>"" + n\<close> for a non-negative integer \<open>n\<close> (an offset into the input or a
  counter of detections, both far below the \<open>10^21\<close> where JavaScript turns to the
  exponent notation): its decimal digits, most significant first, with no sign and no
  leading zero.
\<close>

definition digit_char :: "nat \<Rightarrow> char" where
  "digit_char d = char_of (48 + d)"

fun number_to_string :: "nat \<Rightarrow> string" where
  "number_to_string n =
     (if n < 10 then [digit_char n]
      else number_to_string (n div 10) @ [digit_char (n mod 10)])"

declare number_to_string.simps [simp del]

text \<open>
  One entry of what \<^verbatim>\<open>scanForFileTypes\<close> returns: the offset of the match and the
  details of the file type matched there.
\<close>

record detection =
  offset :: nat
  fileDetails :: file_details

record scan_state =
  output' :: string
  numFound :: nat
  numCommonFound :: nat

definition commonExts :: "string list" where
  "commonExts = [''ttf'', ''utf16le'', '''']"

definition scan_banner :: string where
  "scan_banner = ''Scanning data for 'magic bytes' which may indicate embedded files. The following results may be false positives and should not be treat as reliable. Any suffiently long file is likely to contain these magic bytes coincidentally.\<newline>''"

text \<open>
  The text that the loop adds for one listed detection. \<^verbatim>\<open>Utils.hex\<close> is not among
  the sources, so it is the parameter \<open>hex\<close>. The description line is added only when
  the description is there and not empty.
\<close>

definition detail_text :: "(nat \<Rightarrow> string) \<Rightarrow> detection \<Rightarrow> string" where
  "detail_text hex type =
     ''\<newline>Offset '' @ number_to_string (offset type) @ '' (0x'' @ hex (offset type) @ ''):\<newline>'' @
     ''  File extension: '' @ extension (fileDetails type) @ ''\<newline>'' @
     ''  MIME type:      '' @ mime (fileDetails type) @ ''\<newline>'' @
     (case description (fileDetails type) of
        None \<Rightarrow> []
      | Some d \<Rightarrow> if d \<noteq> [] then ''  Description:    '' @ d @ ''\<newline>'' else [])"

text \<open>The body of \<^verbatim>\<open>types.forEach\<close>, on the three variables that it updates.\<close>

definition forEach_type ::
  "(nat \<Rightarrow> string) \<Rightarrow> bool \<Rightarrow> detection \<Rightarrow> scan_state \<Rightarrow> scan_state" where
  "forEach_type hex ignoreCommon type st =
     (if ignoreCommon \<and> array_indexOf commonExts (extension (fileDetails type)) > - 1
      then st\<lparr> numCommonFound := numCommonFound st + 1 \<rparr>
      else st\<lparr> numFound := numFound st + 1,
               output' := output' st @ detail_text hex type \<rparr>)"

definition common_note :: "nat \<Rightarrow> string" where
  "common_note n =
     ''\<newline>\<newline>'' @ number_to_string n @
     (if n = 1
      then '' file type was detected that has a common byte sequence. This is likely to be a false positive.''
      else '' file types were detected that have common byte sequences. These are likely to be false positives.'') @
     '' Run this operation with the 'Ignore common byte sequences' option unchecked to see details.''"

text \<open>
  \<^verbatim>\<open>ScanForEmbeddedFiles.run\<close>. \<^verbatim>\<open>scanForFileTypes\<close> lives in \<^verbatim>\<open>lib/FileType\<close>,
  which is not among the sources: it is the parameter \<open>scanForFileTypes\<close>, from the
  bytes to the list of detections.
\<close>

definition ScanForEmbeddedFiles_run ::
  "(byteArray \<Rightarrow> detection list) \<Rightarrow> (nat \<Rightarrow> string) \<Rightarrow> byteArray \<Rightarrow> bool \<Rightarrow> string" where
  "ScanForEmbeddedFiles_run scanForFileTypes hex input ignoreCommon =
     (let st0 = \<lparr> output' = scan_banner, numFound = 0, numCommonFound = 0 \<rparr>;
          types = scanForFileTypes input;
          st1 = (if length types \<noteq> 0 then fold (forEach_type hex ignoreCommon) types st0 else st0);
          st2 = (if numFound st1 = 0
                 then st1\<lparr> output' := output' st1 @ ''\<newline>No embedded files were found.'' \<rparr>
                 else st1);
          st3 = (if numCommonFound st2 > 0
                 then st2\<lparr> output' := output' st2 @ common_note (numCommonFound st2) \<rparr>
                 else st2)
      in output' st3)"

subsection \<open>The claim's vocabulary\<close>

text \<open>
  A detection is common when its extension is \<^verbatim>\<open>ttf\<close>, \<^verbatim>\<open>utf16le\<close> or empty. The
  detections reported in detail are all of them when common byte sequences are not
  ignored, and the ones that are not common otherwise; the others are only counted.
\<close>

definition is_common :: "detection \<Rightarrow> bool" where
  "is_common type = (extension (fileDetails type) \<in> {''ttf'', ''utf16le'', ''''})"

definition reported_in_detail :: "bool \<Rightarrow> detection list \<Rightarrow> detection list" where
  "reported_in_detail ignoreCommon types =
     filter (\<lambda>type. \<not> (ignoreCommon \<and> is_common type)) types"

definition only_counted :: "bool \<Rightarrow> detection list \<Rightarrow> detection list" where
  "only_counted ignoreCommon types =
     filter (\<lambda>type. ignoreCommon \<and> is_common type) types"

text \<open>The lines of a text: what lies between two line feeds, or between one and an end.\<close>

fun split_lines :: "string \<Rightarrow> string list" where
  "split_lines [] = [[]]"
| "split_lines (c # cs) =
     (if c = CHR 0x0A then [] # split_lines cs
      else (case split_lines cs of [] \<Rightarrow> [[c]] | l # ls \<Rightarrow> (c # l) # ls))"

definition contains_line :: "string \<Rightarrow> string \<Rightarrow> bool" where
  "contains_line text l = (l \<in> set (split_lines text))"

text \<open>
  What the absent table and \<^verbatim>\<open>Utils.hex\<close> are taken to satisfy: no field of a file
  type's details, and no offset written in hexadecimal, holds a line feed.
\<close>

definition single_line :: "string \<Rightarrow> bool" where
  "single_line s = (CHR 0x0A \<notin> set s)"

definition single_line_details :: "(nat \<Rightarrow> string) \<Rightarrow> detection list \<Rightarrow> bool" where
  "single_line_details hex types =
     list_all (\<lambda>type. single_line (hex (offset type))
                  \<and> single_line (extension (fileDetails type))
                  \<and> single_line (mime (fileDetails type))
                  \<and> (case description (fileDetails type) of
                        None \<Rightarrow> True | Some d \<Rightarrow> single_line d)) types"

text \<open>
  The lines that one listed detection takes in the output, the empty line before them
  included; the note on common byte sequences without its two leading line feeds; the
  line that says that nothing was found; and the banner without its line feed.
\<close>

definition detail_lines :: "(nat \<Rightarrow> string) \<Rightarrow> detection \<Rightarrow> string list" where
  "detail_lines hex type =
     [[],
      ''Offset '' @ number_to_string (offset type) @ '' (0x'' @ hex (offset type) @ ''):'',
      ''  File extension: '' @ extension (fileDetails type),
      ''  MIME type:      '' @ mime (fileDetails type)]
     @ (case description (fileDetails type) of
          None \<Rightarrow> []
        | Some d \<Rightarrow> if d \<noteq> [] then [''  Description:    '' @ d] else [])"

definition note_line :: "nat \<Rightarrow> string" where
  "note_line n = drop 2 (common_note n)"

definition no_files_line :: string where
  "no_files_line = ''No embedded files were found.''"

definition banner_line :: string where
  "banner_line = butlast scan_banner"

text \<open>A table of three signatures and a two-digit hexadecimal writer, for concrete runs.\<close>

definition hex_digit :: "nat \<Rightarrow> char" where
  "hex_digit d = (if d < 10 then char_of (48 + d) else char_of (87 + d))"

definition two_digit_hex :: "nat \<Rightarrow> string" where
  "two_digit_hex n = [hex_digit ((n div 16) mod 16), hex_digit (n mod 16)]"

fun scan_from :: "nat \<Rightarrow> byteArray \<Rightarrow> detection list" where
  "scan_from k [] = []"
| "scan_from k (b # bs) =
     (if b = 0xFF \<and> take 1 bs = [0xD8]
      then [\<lparr> offset = k, fileDetails =
               \<lparr> extension = ''jpg'', mime = ''image/jpeg'', description = Some '''' \<rparr> \<rparr>]
      else if b = 0xFF \<and> take 1 bs = [0xFE]
      then [\<lparr> offset = k, fileDetails =
               \<lparr> extension = ''utf16le'', mime = ''charset/utf16le'',
                 description = Some ''Little-endian UTF-16 encoded Unicode.'' \<rparr> \<rparr>]
      else if b = 0x50 \<and> take 1 bs = [0x4B]
      then [\<lparr> offset = k, fileDetails =
               \<lparr> extension = ''zip'', mime = ''application/zip'', description = None \<rparr> \<rparr>]
      else []) @ scan_from (Suc k) bs"

section \<open>The Magic analyzer\<close>

text \<open>
  The Magic operation and its library are not among the sources: the sources hold its
  tests and the operations that call its file type detection. The analyzer below follows
  the specification's data model (its section 3), its operation registry (4.4), its
  expansion algorithm (4.5), its result formatter (4.6) and its call surface (6). What the
  specification leaves to the host or to packaged catalogues is a field of the engine.
\<close>

text \<open>Modelled from the spec: the declared input and output types of an operation (section 3), absent from the sources.\<close>

datatype data_type = RawBytes | Utf8String | NumberString | ByteList

text \<open>Modelled from the spec: an argument vector, typed by the host and opaque to the engine; and a recipe, the ordered sequence of (operation name, argument vector) pairs.\<close>

type_synonym arg_vector = "string list"

type_synonym recipe = "(string \<times> arg_vector) list"

text \<open>Modelled from the spec: a PatternHint (section 3): a regex, the bytes for which it is meaningful, the argument vector to pass when it fires, and a usefulness flag.\<close>

record pattern_hint =
  hint_regex :: string
  hint_bytes :: byteArray
  hint_args :: arg_vector
  hint_useful :: bool

text \<open>Modelled from the spec: an OperationDescriptor (section 3), the immutable catalogue entry of one operation.\<close>

record operation_descriptor =
  op_name :: string
  input_type :: data_type
  output_type :: data_type
  op_default_args :: arg_vector
  magic_useful :: bool
  pattern_hints :: "pattern_hint list"

text \<open>Modelled from the spec: the OperationRegistry contract (section 4.4); the operations themselves belong to the host. An invocation yields a buffer or an operation error.\<close>

record operation_registry =
  list_by_input_type :: "data_type \<Rightarrow> operation_descriptor list"
  default_args :: "string \<Rightarrow> arg_vector"
  matching_hints :: "string \<Rightarrow> byteArray \<Rightarrow> arg_vector list"
  invoke :: "string \<Rightarrow> arg_vector \<Rightarrow> byteArray \<Rightarrow> string + byteArray"

text \<open>
  Modelled from the spec: ScoreKit (section 4.2). Its metrics are IEEE doubles combined
  with weights and thresholds that the specification does not give, so a score is a value
  of a type \<open>'s\<close> of the kit, ordered for ranking through a key \<open>'k\<close> (smaller is
  better). The kit scores a buffer under the caller's target regex and language
  support flag, says whether a score is interesting, and whether a child's rank is
  strictly better than its parent's rank minus the improvement floor.
\<close>

record ('s, 'k) score_kit =
  score_of :: "string option \<Rightarrow> bool \<Rightarrow> byteArray \<Rightarrow> 's"
  rank :: "'s \<Rightarrow> 'k"
  is_interesting :: "'s \<Rightarrow> bool"
  improves :: "'s \<Rightarrow> 's \<Rightarrow> bool"

text \<open>
  Modelled from the spec: the engine value that owns the immutable catalogues (sections 6
  and 9): the registry, the score kit, the fingerprint (a hash of a buffer and of the
  recipe that produced it), the types compatible with a root buffer, the regex compiler's
  verdict, the file type and encoding signatures, the preview and the rendering of one
  candidate, and the constants \<open>max_nodes\<close> and \<open>keep_top_k\<close>.
\<close>

record ('s, 'k, 'e) engine =
  registry :: operation_registry
  kit :: "('s, 'k) score_kit"
  fingerprint_of :: "byteArray \<Rightarrow> recipe \<Rightarrow> 64 word"
  root_types :: "byteArray \<Rightarrow> data_type list"
  valid_regex :: "string \<Rightarrow> bool"
  identify :: "byteArray \<Rightarrow> file_details option"
  detect_encodings :: "bool \<Rightarrow> byteArray \<Rightarrow> 'e list"
  preview_of :: "byteArray \<Rightarrow> string"
  max_nodes :: nat
  keep_top_k :: nat

text \<open>Modelled from the spec: the configuration of one call (sections 4.5 and 6).\<close>

record config =
  depth :: int
  intensive :: bool
  extensive_language_support :: bool
  crib_regex :: "string option"

text \<open>
  Modelled from the spec: a MagicNode (section 3): its buffer, the index of its parent in
  the arena of nodes (none at the root), the operation and argument vector that produced
  it (none at the root), its depth, its score and its fingerprint.
\<close>

record 's magic_node =
  buffer :: byteArray
  parent :: "nat option"
  produced_by :: "(operation_descriptor \<times> arg_vector) option"
  node_depth :: nat
  node_score :: 's
  fingerprint :: "64 word"

text \<open>
  Modelled from the spec: the state of one search (section 4.5): the arena of nodes, the
  fingerprints seen within this search, the number of expansions counted against
  \<open>max_nodes\<close>, the number of operation errors, the children kept while the current depth
  is expanded (index and rank), the nodes that survived pruning at every depth, and the
  two flags of the report.
\<close>

record ('s, 'k) search_state =
  nodes :: "'s magic_node list"
  seen :: "64 word list"
  expansions :: nat
  op_errors :: nat
  next_level :: "(nat \<times> 'k) list"
  survivors :: "(nat \<times> 'k) list"
  st_truncated :: bool
  st_cancelled :: bool

text \<open>Modelled from the spec: the lookup of a node by its index in the arena.\<close>

definition node_at :: "'s magic_node list \<Rightarrow> nat \<Rightarrow> 's magic_node option" where
  "node_at ns i = (if i < length ns then Some (ns ! i) else None)"

text \<open>
  Modelled from the spec: the path from the root to a node (section 3), as the indices
  met when the parent pointers are followed. A child is appended to the arena after its
  parent, so a parent's index is smaller; the walk stops at a pointer that is not.
\<close>

function path_of :: "'s magic_node list \<Rightarrow> nat \<Rightarrow> nat list" where
  "path_of ns i =
     (if i < length ns then
        (case parent (ns ! i) of
           None \<Rightarrow> [i]
         | Some p \<Rightarrow> if p < i then path_of ns p @ [i] else [i])
      else [])"
  by pat_completeness auto
termination
  by (relation "measure snd") auto

declare path_of.simps [simp del]

text \<open>Modelled from the spec: the Recipe of a node, the (operation name, argument vector) pairs along its path; the root's recipe is empty.\<close>

definition recipe_of :: "'s magic_node list \<Rightarrow> nat \<Rightarrow> recipe" where
  "recipe_of ns i =
     List.map_filter
       (\<lambda>j. case produced_by (ns ! j) of
               None \<Rightarrow> None
             | Some (op, args) \<Rightarrow> Some (op_name op, args))
       (path_of ns i)"

text \<open>Modelled from the spec: the fingerprints on the path from the root to a node.\<close>

definition path_fingerprints :: "'s magic_node list \<Rightarrow> nat \<Rightarrow> 64 word list" where
  "path_fingerprints ns i = map (\<lambda>j. fingerprint (ns ! j)) (path_of ns i)"

text \<open>
  Modelled from the spec: step 2a of the expansion algorithm. The operations offered at a
  node are those listed for its output type; at the root, those listed for any type
  compatible with the root buffer. An operation whose input type disagrees is skipped.
\<close>

definition candidate_ops ::
  "('s, 'k, 'e, 'x) engine_scheme \<Rightarrow> 's magic_node \<Rightarrow> operation_descriptor list" where
  "candidate_ops E n =
     (case produced_by n of
        None \<Rightarrow>
          concat (map (\<lambda>t. filter (\<lambda>op. input_type op = t)
                              (list_by_input_type (registry E) t))
                    (root_types E (buffer n)))
      | Some (op, args) \<Rightarrow>
          filter (\<lambda>op'. input_type op' = output_type op)
            (list_by_input_type (registry E) (output_type op)))"

text \<open>
  Modelled from the spec: step 2b, first item. The argument vectors to try are the
  default one and every hinted one; an operation not marked useful, with no hint that
  fires, is skipped unless the search is intensive.
\<close>

definition arg_vectors ::
  "('s, 'k, 'e, 'x) engine_scheme \<Rightarrow> config \<Rightarrow> operation_descriptor \<Rightarrow> byteArray
   \<Rightarrow> arg_vector list" where
  "arg_vectors E cfg op b =
     (let hinted = matching_hints (registry E) (op_name op) b in
      if \<not> intensive cfg \<and> \<not> magic_useful op \<and> hinted = [] then []
      else default_args (registry E) (op_name op) # hinted)"

text \<open>
  Modelled from the spec: step 2b, second to fourth item, for one argument vector. When
  the budget of \<open>max_nodes\<close> is spent the search is marked truncated. An operation error
  is counted and the child discarded. A child whose fingerprint is on the path of its
  parent, or was seen in this search, is skipped. The child is kept when its score
  improves on its parent's, or when the search is intensive.
\<close>

definition try_child ::
  "('s, 'k, 'e, 'x) engine_scheme \<Rightarrow> config \<Rightarrow> nat \<Rightarrow> operation_descriptor \<Rightarrow> arg_vector
   \<Rightarrow> ('s, 'k) search_state \<Rightarrow> ('s, 'k) search_state" where
  "try_child E cfg p op args st =
     (case node_at (nodes st) p of
        None \<Rightarrow> st
      | Some par \<Rightarrow>
          if max_nodes E \<le> expansions st then st\<lparr> st_truncated := True \<rparr>
          else
            (case invoke (registry E) (op_name op) args (buffer par) of
               Inl err \<Rightarrow>
                 st\<lparr> expansions := Suc (expansions st), op_errors := Suc (op_errors st) \<rparr>
             | Inr b \<Rightarrow>
                 (let fp = fingerprint_of E b (recipe_of (nodes st) p @ [(op_name op, args)]) in
                  if fp \<in> set (path_fingerprints (nodes st) p) \<or> fp \<in> set (seen st)
                  then st\<lparr> expansions := Suc (expansions st) \<rparr>
                  else
                    (let s = score_of (kit E) (crib_regex cfg)
                               (extensive_language_support cfg) b in
                     if improves (kit E) s (node_score par) \<or> intensive cfg
                     then st\<lparr> nodes := nodes st @
                                 [\<lparr> buffer = b, parent = Some p, produced_by = Some (op, args),
                                    node_depth = Suc (node_depth par), node_score = s,
                                    fingerprint = fp \<rparr>],
                              seen := fp # seen st,
                              expansions := Suc (expansions st),
                              next_level := next_level st @ [(length (nodes st), rank (kit E) s)] \<rparr>
                     else st\<lparr> expansions := Suc (expansions st) \<rparr>))))"

text \<open>
  Modelled from the spec: step 2a and 2b for one node of the frontier, with the
  cancellation token of section 5 asked before the node is expanded. The token is a
  function of the number of expansions done so far.
\<close>

definition expand_node ::
  "('s, 'k, 'e, 'x) engine_scheme \<Rightarrow> config \<Rightarrow> (nat \<Rightarrow> bool) option \<Rightarrow> nat
   \<Rightarrow> ('s, 'k) search_state \<Rightarrow> ('s, 'k) search_state" where
  "expand_node E cfg token p st =
     (if st_cancelled st then st
      else if (case token of None \<Rightarrow> False | Some is_cancelled \<Rightarrow> is_cancelled (expansions st))
      then st\<lparr> st_cancelled := True \<rparr>
      else
        (case node_at (nodes st) p of
           None \<Rightarrow> st
         | Some n \<Rightarrow>
             fold (\<lambda>op. fold (try_child E cfg p op) (arg_vectors E cfg op (buffer n)))
               (candidate_ops E n) st))"

text \<open>Modelled from the spec: step 2 for one depth, over the frontier in its order (ascending rank).\<close>

definition expand_depth ::
  "('s, 'k, 'e, 'x) engine_scheme \<Rightarrow> config \<Rightarrow> (nat \<Rightarrow> bool) option \<Rightarrow> nat list
   \<Rightarrow> ('s, 'k) search_state \<Rightarrow> ('s, 'k) search_state" where
  "expand_depth E cfg token frontier st =
     fold (expand_node E cfg token) frontier (st\<lparr> next_level := [] \<rparr>)"

text \<open>
  Modelled from the spec: steps 2c and 3. After a depth is expanded its children are
  sorted by rank (the sort is stable, so equal ranks keep the order of registration) and
  truncated to \<open>keep_top_k\<close>. The search stops when no child was produced, when the
  depth budget is spent, when \<open>max_nodes\<close> is exhausted, or when it is cancelled.
\<close>

fun search_levels ::
  "('s, 'k::linorder, 'e, 'x) engine_scheme \<Rightarrow> config \<Rightarrow> (nat \<Rightarrow> bool) option \<Rightarrow> nat
   \<Rightarrow> nat list \<Rightarrow> ('s, 'k) search_state \<Rightarrow> ('s, 'k) search_state" where
  "search_levels E cfg token 0 frontier st = st"
| "search_levels E cfg token (Suc k) frontier st =
     (let st' = expand_depth E cfg token frontier st;
          kept = take (keep_top_k E) (sort_key snd (next_level st'));
          st'' = st'\<lparr> survivors := survivors st' @ kept \<rparr>
      in if kept = [] \<or> st_truncated st' \<or> st_cancelled st' then st''
         else search_levels E cfg token k (map fst kept) st'')"

text \<open>Modelled from the spec: step 1, the root node at depth 0 with its score, counted as the first expansion.\<close>

definition initial_state ::
  "('s, 'k, 'e, 'x) engine_scheme \<Rightarrow> config \<Rightarrow> byteArray \<Rightarrow> ('s, 'k) search_state" where
  "initial_state E cfg input =
     (let s = score_of (kit E) (crib_regex cfg) (extensive_language_support cfg) input;
          fp = fingerprint_of E input []
      in \<lparr> nodes = [\<lparr> buffer = input, parent = None, produced_by = None, node_depth = 0,
                      node_score = s, fingerprint = fp \<rparr>],
           seen = [fp],
           expansions = 1,
           op_errors = 0,
           next_level = [],
           survivors = [(0, rank (kit E) s)],
           st_truncated = False,
           st_cancelled = False \<rparr>)"

text \<open>Modelled from the spec: the search of one call, from the root through at most \<open>depth\<close> levels (section 4.5).\<close>

definition search ::
  "('s, 'k::linorder, 'e, 'x) engine_scheme \<Rightarrow> config \<Rightarrow> (nat \<Rightarrow> bool) option \<Rightarrow> byteArray
   \<Rightarrow> ('s, 'k) search_state" where
  "search E cfg token input =
     search_levels E cfg token (nat (depth cfg)) [0] (initial_state E cfg input)"

text \<open>Modelled from the spec: the verdict on a node of the arena, from the kit's verdict on its score (section 4.2).\<close>

definition node_is_interesting ::
  "('s, 'k, 'e, 'x) engine_scheme \<Rightarrow> 's magic_node list \<Rightarrow> nat \<Rightarrow> bool" where
  "node_is_interesting E ns i =
     (case node_at ns i of None \<Rightarrow> False | Some n \<Rightarrow> is_interesting (kit E) (node_score n))"

text \<open>
  Modelled from the spec: step 4 and the tie-breaks. The survivors are ranked (they were
  collected depth by depth, and the sort is stable, so equal ranks put the shallower
  recipe first); the result set is every interesting node, or the best-ranked node alone
  when none is interesting.
\<close>

definition result_set ::
  "('s, 'k::linorder, 'e, 'x) engine_scheme \<Rightarrow> ('s, 'k) search_state \<Rightarrow> nat list" where
  "result_set E st =
     (let ranked = map fst (sort_key snd (survivors st));
          found = filter (node_is_interesting E (nodes st)) ranked
      in if found = [] then take 1 ranked else found)"

text \<open>Modelled from the spec: the kinds of error that cross the boundary of a call (section 7): the configuration kind only.\<close>

datatype analyze_error = ConfigurationError string

text \<open>
  Modelled from the spec: the engine behind \<open>analyze\<close>: a configuration error fails the
  call before the expansion; otherwise the search runs and its result set is collected.
\<close>

definition run_engine ::
  "('s, 'k::linorder, 'e, 'x) engine_scheme \<Rightarrow> (nat \<Rightarrow> bool) option \<Rightarrow> byteArray \<Rightarrow> config
   \<Rightarrow> analyze_error + (('s, 'k) search_state \<times> nat list)" where
  "run_engine E token input cfg =
     (if depth cfg < 0 then Inl (ConfigurationError ''invalid depth'')
      else if (case crib_regex cfg of None \<Rightarrow> False | Some r \<Rightarrow> \<not> valid_regex E r)
      then Inl (ConfigurationError ''invalid regex'')
      else (let st = search E cfg token input in Inr (st, result_set E st)))"

text \<open>Modelled from the spec: a Candidate of the report (section 6).\<close>

record ('s, 'e) candidate =
  recipe :: recipe
  detected_type :: "file_details option"
  encodings :: "'e list"
  score :: 's
  preview :: string
  interesting :: bool

text \<open>Modelled from the spec: the AnalysisReport (section 6).\<close>

record ('s, 'e) analysis_report =
  candidates :: "('s, 'e) candidate list"
  truncated :: bool
  cancelled :: bool

text \<open>Modelled from the spec: the candidate made of a node of the result set: its recipe, what the catalogues detect in its buffer, its score, its preview and its verdict.\<close>

definition candidate_of ::
  "('s, 'k, 'e, 'x) engine_scheme \<Rightarrow> config \<Rightarrow> 's magic_node list \<Rightarrow> nat
   \<Rightarrow> ('s, 'e) candidate option" where
  "candidate_of E cfg ns i =
     (case node_at ns i of
        None \<Rightarrow> None
      | Some n \<Rightarrow>
          Some \<lparr> recipe = recipe_of ns i,
                 detected_type = identify E (buffer n),
                 encodings = detect_encodings E (extensive_language_support cfg) (buffer n),
                 score = node_score n,
                 preview = preview_of E (buffer n),
                 interesting = is_interesting (kit E) (node_score n) \<rparr>)"

text \<open>
  Modelled from the spec: \<open>analyze\<close> (sections 6 and 7). The empty input returns a
  report with no candidates, whatever the configuration, and is never an error.
\<close>

definition analyze ::
  "('s, 'k::linorder, 'e, 'x) engine_scheme \<Rightarrow> (nat \<Rightarrow> bool) option \<Rightarrow> byteArray \<Rightarrow> config
   \<Rightarrow> analyze_error + ('s, 'e) analysis_report" where
  "analyze E token input cfg =
     (if input = [] then Inr \<lparr> candidates = [], truncated = False, cancelled = False \<rparr>
      else
        (case run_engine E token input cfg of
           Inl e \<Rightarrow> Inl e
         | Inr (st, res) \<Rightarrow>
             Inr \<lparr> candidates = List.map_filter (candidate_of E cfg (nodes st)) res,
                   truncated = st_truncated st,
                   cancelled = st_cancelled st \<rparr>))"

text \<open>Modelled from the spec: the literal text of section 4.6, emitted when no interesting node exists.\<close>

definition nothing_of_interest :: string where
  "nothing_of_interest = ''Nothing of interest could be detected about the input data.\<newline>Have you tried modifying the operation arguments?''"

text \<open>
  Modelled from the spec: the ResultFormatter (section 4.6): one record per candidate,
  rendered by the host, or the fixed text when no candidate is interesting.
\<close>

definition format_report ::
  "(('s, 'e) candidate \<Rightarrow> string) \<Rightarrow> ('s, 'e) analysis_report \<Rightarrow> string" where
  "format_report render r =
     (if filter interesting (candidates r) = [] then nothing_of_interest
      else concat (map render (candidates r)))"

subsection \<open>Invariants of the arena\<close>

text \<open>
  Modelled from the spec: the invariants of section 3 on the arena. A root has no
  producing operation; a child comes after its parent, is one level deeper, and carries a
  fingerprint that is not on its parent's path.
\<close>

definition wf_arena :: "'s magic_node list \<Rightarrow> bool" where
  "wf_arena ns =
     (\<forall>i < length ns.
        case parent (ns ! i) of
          None \<Rightarrow> produced_by (ns ! i) = None
        | Some p \<Rightarrow> p < i \<and> node_depth (ns ! i) = Suc (node_depth (ns ! p))
                   \<and> fingerprint (ns ! i) \<notin> set (path_fingerprints ns p))"

text \<open>
  The invariant of the search while the nodes of depth \<open>j\<close> are expanded: the first \<open>m\<close> nodes of the arena are the
  ones that were there before, at depth \<open>j\<close> at most; every node is at depth \<open>j + 1\<close> at
  most; and the children kept so far are nodes of the arena.
\<close>

definition level_inv :: "nat \<Rightarrow> nat \<Rightarrow> ('s, 'k) search_state \<Rightarrow> bool" where
  "level_inv j m st =
     (wf_arena (nodes st) \<and> m \<le> length (nodes st)
      \<and> (\<forall>i < m. node_depth (nodes st ! i) \<le> j)
      \<and> (\<forall>i < length (nodes st). node_depth (nodes st ! i) \<le> Suc j)
      \<and> (\<forall>e \<in> set (next_level st). fst e < length (nodes st)))"

subsection \<open>A small engine for concrete runs\<close>

text \<open>
  A host with two operations on raw bytes, one that drops the first byte (and fails on
  the empty buffer) and one that reverses the buffer; a score that is the length of the
  buffer, interesting when it is 1 and better when shorter; a fingerprint that hashes the
  bytes alone; and a budget of 100 nodes, 5 of them kept at each depth.
\<close>

definition drop_first_op :: operation_descriptor where
  "drop_first_op =
     \<lparr> op_name = ''Drop First'', input_type = RawBytes, output_type = RawBytes,
       op_default_args = [], magic_useful = True, pattern_hints = [] \<rparr>"

definition reverse_op :: operation_descriptor where
  "reverse_op =
     \<lparr> op_name = ''Reverse'', input_type = RawBytes, output_type = RawBytes,
       op_default_args = [], magic_useful = False, pattern_hints = [] \<rparr>"

definition small_registry :: operation_registry where
  "small_registry =
     \<lparr> list_by_input_type = (\<lambda>t. if t = RawBytes then [drop_first_op, reverse_op] else []),
       default_args = (\<lambda>name. []),
       matching_hints = (\<lambda>name b. []),
       invoke = (\<lambda>name args b.
          if name = ''Drop First'' then (if b = [] then Inl ''empty buffer'' else Inr (tl b))
          else if name = ''Reverse'' then Inr (rev b)
          else Inl ''unknown operation'') \<rparr>"

definition small_engine :: "(nat, nat, string) engine" where
  "small_engine =
     \<lparr> registry = small_registry,
       kit = \<lparr> score_of = (\<lambda>crib ext b. length b), rank = (\<lambda>s. s),
               is_interesting = (\<lambda>s. s = 1), improves = (\<lambda>s s'. s < s') \<rparr>,
       fingerprint_of = (\<lambda>b r. fold (\<lambda>x h. 31 * h + ucast x) b 7),
       root_types = (\<lambda>b. [RawBytes]),
       valid_regex = (\<lambda>r. True),
       identify = two_byte_detector,
       detect_encodings = (\<lambda>ext b. []),
       preview_of = (\<lambda>b. map (\<lambda>w. char_of (unat w)) b),
       max_nodes = 100,
       keep_top_k = 5 \<rparr>"

definition intensive_depth_2 :: config where
  "intensive_depth_2 =
     \<lparr> depth = 2, intensive = True, extensive_language_support = False, crib_regex = None \<rparr>"

section \<open>Properties of the JavaScript primitives\<close>

lemma indexOf_from_range: "indexOf_from s pat k = - 1 \<or> int k \<le> indexOf_from s pat k"
  by (induction s arbitrary: k) (auto, force)

lemma indexOf_from_zero: "indexOf_from s pat (Suc k) \<noteq> 0"
  using indexOf_from_range [of s pat "Suc k"] by auto

lemma indexOf_zero_iff_prefix: "indexOf s pat = 0 \<longleftrightarrow> prefix pat s"
  by (cases s) (auto simp: indexOf_def indexOf_from_zero)

lemma mime_is_image_iff: "mime_is_image type \<longleftrightarrow> identifies_image type"
  by (cases type) (auto simp: mime_is_image_def identifies_image_def indexOf_zero_iff_prefix)

section \<open>The image operations reject what is not an image\<close>

lemma CoverImage_invalid_iff:
  "fst (CoverImage_run mft J w input width height hAlign vAlign alg)
     = Inl (OperationError ''Invalid file type.'') \<longleftrightarrow> \<not> identifies_image (mft input)"
  by (simp add: CoverImage_run_def Let_def mime_is_image_iff split: sum.splits)

lemma RotateImage_invalid_iff:
  "fst (RotateImage_run mft J w input degrees)
     = Inl (OperationError ''Invalid file type.'') \<longleftrightarrow> \<not> identifies_image (mft input)"
  by (simp add: RotateImage_run_def Let_def mime_is_image_iff split: sum.splits)

lemma BlurImage_invalid_iff:
  "fst (BlurImage_run mft J w input blurAmount blurType)
     = Inl (OperationError ''Invalid file type.'') \<longleftrightarrow> \<not> identifies_image (mft input)"
  by (simp add: BlurImage_run_def Let_def mime_is_image_iff split: sum.splits prod.splits)

lemma no_processing_when_invalid:
  assumes "\<not> identifies_image (mft input)"
  shows "snd (CoverImage_run mft J w input width height hAlign vAlign alg) = []"
    and "snd (RotateImage_run mft J w input degrees) = []"
    and "snd (BlurImage_run mft J w input blurAmount blurType) = []"
  using assms
  by (simp_all add: CoverImage_run_def RotateImage_run_def BlurImage_run_def Let_def
      mime_is_image_iff)

text \<open>
  C9. For every byte array, each of Cover Image, Rotate Image and Blur Image fails with
  \<^verbatim>\<open>OperationError("Invalid file type.")\<close> exactly when file type detection does not
  identify a type whose mime string starts with \<^verbatim>\<open>image\<close>; and then the operation has
  made no call into the image library and sent no status message.
\<close>

theorem image_operations_invalid_file_type:
  "(fst (CoverImage_run mft J w input width height hAlign vAlign alg)
      = Inl (OperationError ''Invalid file type.'') \<longleftrightarrow> \<not> identifies_image (mft input))
   \<and> (fst (RotateImage_run mft J w input degrees)
      = Inl (OperationError ''Invalid file type.'') \<longleftrightarrow> \<not> identifies_image (mft input))
   \<and> (fst (BlurImage_run mft J w input blurAmount blurType)
      = Inl (OperationError ''Invalid file type.'') \<longleftrightarrow> \<not> identifies_image (mft input))
   \<and> (\<not> identifies_image (mft input) \<longrightarrow>
        snd (CoverImage_run mft J w input width height hAlign vAlign alg) = []
      \<and> snd (RotateImage_run mft J w input degrees) = []
      \<and> snd (BlurImage_run mft J w input blurAmount blurType) = [])"
  by (simp add: CoverImage_invalid_iff RotateImage_invalid_iff BlurImage_invalid_iff
      no_processing_when_invalid)

text \<open>
  The theorem at a ZIP archive: detection succeeds, the mime string is not an image's,
  and Rotate Image fails before it calls the library.
\<close>

theorem image_operations_invalid_file_type_witness:
  "\<not> identifies_image (two_byte_detector [0x50, 0x4B, 0x03, 0x04])
   \<and> RotateImage_run two_byte_detector plain_jimp True [0x50, 0x4B, 0x03, 0x04] (90::int)
       = (Inl (OperationError ''Invalid file type.''), [])
   \<and> fst (BlurImage_run two_byte_detector plain_jimp True [0xFF, 0xD8, 0xFF, 0xE0] (5::int) ''Fast'')
       \<noteq> Inl (OperationError ''Invalid file type.'')"
proof -
  have zip: "\<not> identifies_image (two_byte_detector [0x50, 0x4B, 0x03, 0x04])"
    by (simp add: identifies_image_def two_byte_detector_def)
  have jpg: "identifies_image (two_byte_detector [0xFF, 0xD8, 0xFF, 0xE0])"
    by (simp add: identifies_image_def two_byte_detector_def)
  note t1 = image_operations_invalid_file_type
    [where mft = two_byte_detector and input = "[0x50, 0x4B, 0x03, 0x04]"
       and J = plain_jimp and w = True and degrees = "90::int"]
  note t2 = image_operations_invalid_file_type
    [where mft = two_byte_detector and input = "[0xFF, 0xD8, 0xFF, 0xE0]"
       and J = plain_jimp and w = True and blurAmount = "5::int" and blurType = "''Fast''"]
  have "RotateImage_run two_byte_detector plain_jimp True [0x50, 0x4B, 0x03, 0x04] (90::int)
       = (Inl (OperationError ''Invalid file type.''), [])"
    using t1 zip by (simp add: prod_eq_iff)
  moreover have "fst (BlurImage_run two_byte_detector plain_jimp True [0xFF, 0xD8, 0xFF, 0xE0]
       (5::int) ''Fast'') \<noteq> Inl (OperationError ''Invalid file type.'')"
    using t2 jpg by simp
  ultimately show ?thesis using zip by simp
qed

section \<open>Scan for Embedded Files: what the output holds\<close>

lemma array_indexOf_from_found:
  "array_indexOf_from ys x k > - 1 \<longleftrightarrow> x \<in> set ys"
proof (induction ys arbitrary: k)
  case Nil
  show ?case by simp
next
  case (Cons y ys)
  show ?case using Cons.IH [of "Suc k"] by auto
qed

lemma in_commonExts: "array_indexOf commonExts (extension (fileDetails type)) > - 1 \<longleftrightarrow> is_common type"
  by (simp add: array_indexOf_def array_indexOf_from_found commonExts_def is_common_def)

lemma forEach_type_cases:
  "forEach_type hex ic t st =
     (if ic \<and> is_common t then st\<lparr> numCommonFound := numCommonFound st + 1 \<rparr>
      else st\<lparr> numFound := numFound st + 1, output' := output' st @ detail_text hex t \<rparr>)"
  by (simp add: forEach_type_def in_commonExts)

lemma fold_forEach_type:
  "fold (forEach_type hex ic) types st =
     st\<lparr> output' := output' st @ concat (map (detail_text hex) (reported_in_detail ic types)),
         numFound := numFound st + length (reported_in_detail ic types),
         numCommonFound := numCommonFound st + length (only_counted ic types) \<rparr>"
proof (induction types arbitrary: st)
  case Nil
  show ?case by (simp add: reported_in_detail_def only_counted_def)
next
  case (Cons t ts)
  have "fold (forEach_type hex ic) (t # ts) st
          = fold (forEach_type hex ic) ts (forEach_type hex ic t st)"
    by simp
  also have "\<dots> = (forEach_type hex ic t st)
      \<lparr> output' := output' (forEach_type hex ic t st)
            @ concat (map (detail_text hex) (reported_in_detail ic ts)),
        numFound := numFound (forEach_type hex ic t st) + length (reported_in_detail ic ts),
        numCommonFound := numCommonFound (forEach_type hex ic t st)
            + length (only_counted ic ts) \<rparr>"
    by (rule Cons.IH)
  also have "\<dots> = st
      \<lparr> output' := output' st @ concat (map (detail_text hex) (reported_in_detail ic (t # ts))),
        numFound := numFound st + length (reported_in_detail ic (t # ts)),
        numCommonFound := numCommonFound st + length (only_counted ic (t # ts)) \<rparr>"
    by (cases ic; cases "is_common t")
      (simp_all add: forEach_type_cases reported_in_detail_def only_counted_def)
  finally show ?case .
qed

text \<open>The output, laid out from the two lists of the claim.\<close>

lemma ScanForEmbeddedFiles_run_layout:
  "ScanForEmbeddedFiles_run scan hex input ic =
     scan_banner
     @ concat (map (detail_text hex) (reported_in_detail ic (scan input)))
     @ (if reported_in_detail ic (scan input) = []
        then ''\<newline>No embedded files were found.'' else [])
     @ (if only_counted ic (scan input) = [] then []
        else common_note (length (only_counted ic (scan input))))"
proof (cases "scan input = []")
  case True
  then show ?thesis
    by (simp add: ScanForEmbeddedFiles_run_def reported_in_detail_def only_counted_def)
next
  case False
  then show ?thesis
    by (simp add: ScanForEmbeddedFiles_run_def Let_def fold_forEach_type)
qed

subsection \<open>Splitting a text into lines\<close>

lemma split_lines_not_Nil: "split_lines s \<noteq> []"
  by (cases s) (auto split: list.splits)

lemma split_lines_single: "single_line s \<Longrightarrow> split_lines s = [s]"
  by (induction s) (auto simp: single_line_def)

lemma split_lines_append_nl:
  "split_lines (x @ CHR 0x0A # y) = split_lines x @ split_lines y"
proof (induction x)
  case Nil
  show ?case by simp
next
  case (Cons c x)
  show ?case
  proof (cases "c = CHR 0x0A")
    case True
    then show ?thesis using Cons.IH by simp
  next
    case False
    then show ?thesis
      using Cons.IH split_lines_not_Nil [of x] by (cases "split_lines x") simp_all
  qed
qed

lemma split_lines_line:
  "single_line a \<Longrightarrow> split_lines (a @ CHR 0x0A # y) = a # split_lines y"
  by (simp add: split_lines_append_nl split_lines_single)

lemma split_lines_blank: "split_lines (CHR 0x0A # y) = [] # split_lines y"
  by simp

subsection \<open>Decimal numbers hold digits only\<close>

lemma digit_char_not_nl: "d < 10 \<Longrightarrow> digit_char d \<noteq> CHR 0x0A"
proof
  assume d: "d < 10" and e: "digit_char d = CHR 0x0A"
  then have "of_char (digit_char d) = (of_char (CHR 0x0A) :: nat)"
    by simp
  then have "(48 + d) mod 256 = 10"
    by (simp add: digit_char_def)
  with d show False by simp
qed

lemma single_line_number: "single_line (number_to_string n)"
proof (induction n rule: number_to_string.induct)
  case (1 n)
  show ?case
  proof (cases "n < 10")
    case True
    then show ?thesis
      using digit_char_not_nl [of n]
      by (subst number_to_string.simps) (simp add: single_line_def)
  next
    case False
    have "n mod 10 < 10" by simp
    then have "digit_char (n mod 10) \<noteq> CHR 0x0A"
      by (rule digit_char_not_nl)
    moreover have "single_line (number_to_string (n div 10))"
      using False by (rule "1.IH")
    ultimately show ?thesis
      using False by (subst number_to_string.simps) (simp add: single_line_def)
  qed
qed

lemma single_line_append: "single_line (a @ b) \<longleftrightarrow> single_line a \<and> single_line b"
  by (auto simp: single_line_def)

lemma single_line_Cons: "single_line (c # s) \<longleftrightarrow> c \<noteq> CHR 0x0A \<and> single_line s"
  by (auto simp: single_line_def)

lemma single_line_Nil: "single_line []"
  by (simp add: single_line_def)

lemmas single_line_simps =
  single_line_append single_line_Cons single_line_Nil single_line_number

subsection \<open>The lines of the output\<close>

lemma scan_banner_line: "scan_banner = banner_line @ [CHR 0x0A]"
  by (simp add: banner_line_def scan_banner_def)

lemma single_line_banner: "single_line banner_line"
  by (simp add: banner_line_def scan_banner_def single_line_def)

lemma detail_lines_single:
  assumes "single_line (hex (offset t))"
    and "single_line (extension (fileDetails t))"
    and "single_line (mime (fileDetails t))"
    and "case description (fileDetails t) of None \<Rightarrow> True | Some d \<Rightarrow> single_line d"
  shows "split_lines (detail_text hex t @ r) = detail_lines hex t @ split_lines r"
proof -
  let ?l1 = "''Offset '' @ number_to_string (offset t) @ '' (0x'' @ hex (offset t) @ ''):''"
  let ?l2 = "''  File extension: '' @ extension (fileDetails t)"
  let ?l3 = "''  MIME type:      '' @ mime (fileDetails t)"
  have s1: "single_line ?l1"
    using assms(1) by (simp add: single_line_simps)
  have s2: "single_line ?l2"
    using assms(2) by (simp add: single_line_simps)
  have s3: "single_line ?l3"
    using assms(3) by (simp add: single_line_simps)
  show ?thesis
  proof (cases "description (fileDetails t)")
    case None
    have "detail_text hex t @ r
            = CHR 0x0A # (?l1 @ CHR 0x0A # (?l2 @ CHR 0x0A # (?l3 @ CHR 0x0A # r)))"
      using None by (simp add: detail_text_def)
    then have "split_lines (detail_text hex t @ r) = [] # ?l1 # ?l2 # ?l3 # split_lines r"
      using s1 s2 s3 by (simp only: split_lines_blank split_lines_line)
    then show ?thesis using None by (simp add: detail_lines_def)
  next
    case (Some d)
    show ?thesis
    proof (cases "d = []")
      case True
      have "detail_text hex t @ r
              = CHR 0x0A # (?l1 @ CHR 0x0A # (?l2 @ CHR 0x0A # (?l3 @ CHR 0x0A # r)))"
        using Some True by (simp add: detail_text_def)
      then have "split_lines (detail_text hex t @ r) = [] # ?l1 # ?l2 # ?l3 # split_lines r"
        using s1 s2 s3 by (simp only: split_lines_blank split_lines_line)
      then show ?thesis using Some True by (simp add: detail_lines_def)
    next
      case False
      let ?l4 = "''  Description:    '' @ d"
      have s4: "single_line ?l4"
        using assms(4) Some by (simp add: single_line_simps)
      have "detail_text hex t @ r
              = CHR 0x0A # (?l1 @ CHR 0x0A # (?l2 @ CHR 0x0A # (?l3 @ CHR 0x0A
                  # (?l4 @ CHR 0x0A # r))))"
        using Some False by (simp add: detail_text_def)
      then have "split_lines (detail_text hex t @ r)
              = [] # ?l1 # ?l2 # ?l3 # ?l4 # split_lines r"
        using s1 s2 s3 s4 by (simp only: split_lines_blank split_lines_line)
      then show ?thesis using Some False by (simp add: detail_lines_def)
    qed
  qed
qed

lemma split_lines_details:
  "single_line_details hex ts \<Longrightarrow>
   split_lines (concat (map (detail_text hex) ts) @ r)
     = concat (map (detail_lines hex) ts) @ split_lines r"
proof (induction ts)
  case Nil
  show ?case by simp
next
  case (Cons t ts)
  then have rest: "split_lines (concat (map (detail_text hex) ts) @ r)
      = concat (map (detail_lines hex) ts) @ split_lines r"
    by (simp add: single_line_details_def)
  have "split_lines (detail_text hex t @ (concat (map (detail_text hex) ts) @ r))
      = detail_lines hex t @ split_lines (concat (map (detail_text hex) ts) @ r)"
    using Cons.prems by (intro detail_lines_single) (simp_all add: single_line_details_def)
  then show ?case using rest by simp
qed

lemma common_note_lines: "split_lines (common_note n) = [[], [], note_line n]"
proof -
  have "single_line (note_line n)"
    by (simp add: note_line_def common_note_def single_line_simps)
  moreover have "common_note n = CHR 0x0A # CHR 0x0A # note_line n"
    by (simp add: note_line_def common_note_def)
  ultimately show ?thesis
    by (simp add: split_lines_single)
qed

lemma note_line_not_no_files: "note_line n \<noteq> no_files_line"
proof
  assume "note_line n = no_files_line"
  then have "length (note_line n) = length no_files_line"
    by simp
  then show False
    by (simp add: note_line_def common_note_def no_files_line_def split: if_splits)
qed

lemma single_line_no_files: "single_line no_files_line"
  by (simp add: no_files_line_def single_line_simps)

lemma no_files_in_tail:
  "no_files_line
     \<in> set (split_lines (CHR 0x0A # no_files_line @ (if c then [] else common_note n)))"
proof (cases c)
  case True
  then show ?thesis
    by (simp add: split_lines_single [OF single_line_no_files])
next
  case False
  have "single_line (note_line n)"
    by (simp add: note_line_def common_note_def single_line_simps)
  moreover have "common_note n = CHR 0x0A # CHR 0x0A # note_line n"
    by (simp add: note_line_def common_note_def)
  ultimately have "split_lines (CHR 0x0A # no_files_line @ common_note n)
      = [[], no_files_line, [], note_line n]"
    by (simp add: split_lines_line [OF single_line_no_files] split_lines_single)
  then show ?thesis using False by simp
qed

lemma no_files_not_in_tail:
  "no_files_line \<notin> set (split_lines (if c then [] else common_note n))"
  using note_line_not_no_files [of n]
  by (auto simp: common_note_lines) (simp_all add: no_files_line_def)

lemma no_files_not_banner: "no_files_line \<noteq> banner_line"
  by (simp add: no_files_line_def banner_line_def scan_banner_def)

lemma no_files_not_detail: "no_files_line \<notin> set (detail_lines hex t)"
  by (simp add: no_files_line_def detail_lines_def split: option.splits)

lemma single_line_details_filter:
  "single_line_details hex ts \<Longrightarrow> single_line_details hex (filter P ts)"
  by (simp add: single_line_details_def list_all_iff)

text \<open>
  C10. For every input and both values of the argument, the output of Scan for Embedded
  Files is the banner, then the details of the detections reported in detail (all of
  them, or with the argument set those whose extension is not \<^verbatim>\<open>ttf\<close>,
  \<^verbatim>\<open>utf16le\<close> or empty), then the line \<^verbatim>\<open>No embedded files were found.\<close> when
  none was reported in detail, then the note that counts the detections left out when
  there are any. With file type details and hexadecimal offsets that hold no line feed,
  the output contains that line if and only if no detection is reported in detail.
\<close>

theorem scan_no_embedded_files_line:
  assumes "single_line_details hex (scanForFileTypes input)"
  shows "ScanForEmbeddedFiles_run scanForFileTypes hex input ignoreCommon =
           scan_banner
           @ concat (map (detail_text hex)
                 (reported_in_detail ignoreCommon (scanForFileTypes input)))
           @ (if reported_in_detail ignoreCommon (scanForFileTypes input) = []
              then ''\<newline>No embedded files were found.'' else [])
           @ (if only_counted ignoreCommon (scanForFileTypes input) = [] then []
              else common_note (length (only_counted ignoreCommon (scanForFileTypes input))))
         \<and> (contains_line (ScanForEmbeddedFiles_run scanForFileTypes hex input ignoreCommon)
                ''No embedded files were found.''
              \<longleftrightarrow> reported_in_detail ignoreCommon (scanForFileTypes input) = [])"
proof -
  let ?rep = "reported_in_detail ignoreCommon (scanForFileTypes input)"
  let ?cnt = "only_counted ignoreCommon (scanForFileTypes input)"
  let ?B = "if ?cnt = [] then [] else common_note (length ?cnt)"
  let ?A = "if ?rep = [] then CHR 0x0A # no_files_line else []"
  let ?run = "ScanForEmbeddedFiles_run scanForFileTypes hex input ignoreCommon"
  have layout: "?run = scan_banner @ concat (map (detail_text hex) ?rep)
      @ (if ?rep = [] then ''\<newline>No embedded files were found.'' else []) @ ?B"
    by (rule ScanForEmbeddedFiles_run_layout)
  have sl: "single_line_details hex ?rep"
    using assms unfolding reported_in_detail_def by (rule single_line_details_filter)
  have "?run = banner_line @ CHR 0x0A # (concat (map (detail_text hex) ?rep) @ (?A @ ?B))"
    by (subst layout) (simp add: scan_banner_line no_files_line_def)
  then have "split_lines ?run
      = banner_line # split_lines (concat (map (detail_text hex) ?rep) @ (?A @ ?B))"
    by (simp only: split_lines_line [OF single_line_banner])
  then have lines: "split_lines ?run
      = banner_line # concat (map (detail_lines hex) ?rep) @ split_lines (?A @ ?B)"
    by (simp only: split_lines_details [OF sl])
  have iff: "contains_line ?run no_files_line \<longleftrightarrow> ?rep = []"
  proof (cases "?rep = []")
    case True
    then have "no_files_line \<in> set (split_lines (?A @ ?B))"
      using no_files_in_tail [of "?cnt = []" "length ?cnt"] by simp
    then show ?thesis using True by (simp add: contains_line_def lines)
  next
    case False
    then have "no_files_line \<notin> set (split_lines (?A @ ?B))"
      using no_files_not_in_tail [of "?cnt = []" "length ?cnt"] by simp
    then show ?thesis
      using False no_files_not_banner no_files_not_detail
      by (simp add: contains_line_def lines)
  qed
  show ?thesis
    using layout iff by (simp add: no_files_line_def)
qed

text \<open>
  The theorem on three runs of a small table: a lone UTF-16 byte order mark, ignored and
  then not ignored, and the same mark followed by the first bytes of a ZIP archive, whose
  output after the banner is also given in full.
\<close>

theorem scan_no_embedded_files_line_witness:
  "single_line_details two_digit_hex (scan_from 0 [0x00, 0xFF, 0xFE, 0x50, 0x4B])
   \<and> contains_line (ScanForEmbeddedFiles_run (scan_from 0) two_digit_hex [0x00, 0xFF, 0xFE] True)
         ''No embedded files were found.''
   \<and> \<not> contains_line (ScanForEmbeddedFiles_run (scan_from 0) two_digit_hex [0x00, 0xFF, 0xFE] False)
         ''No embedded files were found.''
   \<and> \<not> contains_line
         (ScanForEmbeddedFiles_run (scan_from 0) two_digit_hex [0x00, 0xFF, 0xFE, 0x50, 0x4B] True)
         ''No embedded files were found.''
   \<and> drop 229 (ScanForEmbeddedFiles_run (scan_from 0) two_digit_hex [0x00, 0xFF, 0xFE, 0x50, 0x4B] True)
       = ''\<newline>Offset 3 (0x03):\<newline>  File extension: zip\<newline>  MIME type:      application/zip\<newline>\<newline>\<newline>1 file type was detected that has a common byte sequence. This is likely to be a false positive. Run this operation with the 'Ignore common byte sequences' option unchecked to see details.''"
proof -
  have h1: "single_line_details two_digit_hex (scan_from 0 [0x00, 0xFF, 0xFE])"
    by code_simp
  have h2: "single_line_details two_digit_hex (scan_from 0 [0x00, 0xFF, 0xFE, 0x50, 0x4B])"
    by code_simp
  have r1: "reported_in_detail True (scan_from 0 [0x00, 0xFF, 0xFE]) = []"
    by code_simp
  have r2: "reported_in_detail False (scan_from 0 [0x00, 0xFF, 0xFE]) \<noteq> []"
    by code_simp
  have r3: "reported_in_detail True (scan_from 0 [0x00, 0xFF, 0xFE, 0x50, 0x4B]) \<noteq> []"
    by code_simp
  have r4: "reported_in_detail True (scan_from 0 [0x00, 0xFF, 0xFE, 0x50, 0x4B])
      = [\<lparr> offset = 3, fileDetails =
            \<lparr> extension = ''zip'', mime = ''application/zip'', description = None \<rparr> \<rparr>]"
    by code_simp
  have r5: "length (only_counted True (scan_from 0 [0x00, 0xFF, 0xFE, 0x50, 0x4B])) = 1"
    by code_simp
  have n3: "number_to_string 3 = ''3''" and n1: "number_to_string (Suc 0) = ''1''"
    by code_simp+
  have x3: "two_digit_hex 3 = ''03''"
    by code_simp
  have a: "contains_line (ScanForEmbeddedFiles_run (scan_from 0) two_digit_hex [0x00, 0xFF, 0xFE] True)
         ''No embedded files were found.''"
    using scan_no_embedded_files_line
      [where scanForFileTypes = "scan_from 0" and hex = two_digit_hex and input = "[0x00, 0xFF, 0xFE]"
         and ignoreCommon = True, OF h1, THEN conjunct2] r1 by simp
  have b: "\<not> contains_line (ScanForEmbeddedFiles_run (scan_from 0) two_digit_hex [0x00, 0xFF, 0xFE] False)
         ''No embedded files were found.''"
    using scan_no_embedded_files_line
      [where scanForFileTypes = "scan_from 0" and hex = two_digit_hex and input = "[0x00, 0xFF, 0xFE]"
         and ignoreCommon = False, OF h1, THEN conjunct2] r2 by simp
  have c: "\<not> contains_line
         (ScanForEmbeddedFiles_run (scan_from 0) two_digit_hex [0x00, 0xFF, 0xFE, 0x50, 0x4B] True)
         ''No embedded files were found.''"
    using scan_no_embedded_files_line
      [where scanForFileTypes = "scan_from 0" and hex = two_digit_hex and input = "[0x00, 0xFF, 0xFE, 0x50, 0x4B]"
         and ignoreCommon = True, OF h2, THEN conjunct2] r3 by simp
  have r6: "only_counted True (scan_from 0 [0x00, 0xFF, 0xFE, 0x50, 0x4B]) \<noteq> []"
    by code_simp
  have d: "ScanForEmbeddedFiles_run (scan_from 0) two_digit_hex [0x00, 0xFF, 0xFE, 0x50, 0x4B] True
      = scan_banner @ detail_text two_digit_hex \<lparr> offset = 3, fileDetails =
            \<lparr> extension = ''zip'', mime = ''application/zip'', description = None \<rparr> \<rparr>
        @ common_note 1"
    by (subst scan_no_embedded_files_line
      [where scanForFileTypes = "scan_from 0" and hex = two_digit_hex
         and input = "[0x00, 0xFF, 0xFE, 0x50, 0x4B]" and ignoreCommon = True,
       OF h2, THEN conjunct1], simp only: r4 r5 r6) simp
  have e: "length scan_banner = 229"
    by (simp add: scan_banner_def)
  have step: "drop 229 (ScanForEmbeddedFiles_run (scan_from 0) two_digit_hex [0x00, 0xFF, 0xFE, 0x50, 0x4B] True)
      = detail_text two_digit_hex \<lparr> offset = 3, fileDetails =
            \<lparr> extension = ''zip'', mime = ''application/zip'', description = None \<rparr> \<rparr>
        @ common_note 1"
    by (simp only: d e [symmetric] drop_append length_drop) simp
  have lit: "detail_text two_digit_hex \<lparr> offset = 3, fileDetails =
            \<lparr> extension = ''zip'', mime = ''application/zip'', description = None \<rparr> \<rparr>
        @ common_note 1
      = ''\<newline>Offset 3 (0x03):\<newline>  File extension: zip\<newline>  MIME type:      application/zip\<newline>\<newline>\<newline>1 file type was detected that has a common byte sequence. This is likely to be a false positive. Run this operation with the 'Ignore common byte sequences' option unchecked to see details.''"
    by (simp add: detail_text_def common_note_def n3 n1 x3)
  have f: "drop 229 (ScanForEmbeddedFiles_run (scan_from 0) two_digit_hex [0x00, 0xFF, 0xFE, 0x50, 0x4B] True)
      = ''\<newline>Offset 3 (0x03):\<newline>  File extension: zip\<newline>  MIME type:      application/zip\<newline>\<newline>\<newline>1 file type was detected that has a common byte sequence. This is likely to be a false positive. Run this operation with the 'Ignore common byte sequences' option unchecked to see details.''"
    by (rule trans [OF step lit])
  show ?thesis using h2 a b c f by simp
qed

section \<open>The Magic analyzer: recipes are acyclic and bounded by the depth\<close>

subsection \<open>Paths in the arena\<close>

lemma path_of_outside: "length ns \<le> i \<Longrightarrow> path_of ns i = []"
  by (subst path_of.simps) simp

lemma path_of_below: "j \<in> set (path_of ns i) \<Longrightarrow> j \<le> i"
proof (induction ns i rule: path_of.induct)
  case (1 ns i)
  show ?case
  proof (cases "i < length ns")
    case False
    with "1.prems" show ?thesis by (simp add: path_of_outside)
  next
    case True
    show ?thesis
    proof (cases "parent (ns ! i)")
      case None
      with True "1.prems" show ?thesis
        by (subst (asm) path_of.simps) simp
    next
      case (Some p)
      show ?thesis
      proof (cases "p < i")
        case False
        with True Some "1.prems" show ?thesis
          by (subst (asm) path_of.simps) simp
      next
        case less: True
        from "1.prems" True Some less have "j \<in> set (path_of ns p) \<or> j = i"
          by (subst (asm) path_of.simps) auto
        then show ?thesis
        proof
          assume jp: "j \<in> set (path_of ns p)"
          have "j \<le> p" by (rule "1.IH" [OF True Some less jp])
          with less show ?thesis by simp
        next
          assume "j = i"
          then show ?thesis by simp
        qed
      qed
    qed
  qed
qed

lemma path_of_inside: "j \<in> set (path_of ns i) \<Longrightarrow> j < length ns"
proof -
  assume a: "j \<in> set (path_of ns i)"
  then have "i < length ns"
    using path_of_outside [of ns i] by (cases "i < length ns") auto
  moreover have "j \<le> i" using a by (rule path_of_below)
  ultimately show ?thesis by simp
qed

lemma path_of_append: "i < length ns \<Longrightarrow> path_of (ns @ ms) i = path_of ns i"
proof (induction ns i rule: path_of.induct)
  case (1 ns i)
  have here: "(ns @ ms) ! i = ns ! i"
    using "1.prems" by (simp add: nth_append)
  show ?case
  proof (cases "parent (ns ! i)")
    case None
    then show ?thesis
      using "1.prems" here
      by (subst path_of.simps, subst (2) path_of.simps) simp
  next
    case (Some p)
    show ?thesis
    proof (cases "p < i")
      case False
      then show ?thesis
        using "1.prems" here Some
        by (subst path_of.simps, subst (2) path_of.simps) simp
    next
      case True
      have "path_of (ns @ ms) p = path_of ns p"
        using "1.prems" Some True by (intro "1.IH") simp_all
      then show ?thesis
        using "1.prems" here Some True
        by (subst path_of.simps, subst (2) path_of.simps) simp
    qed
  qed
qed

lemma path_fingerprints_append:
  "i < length ns \<Longrightarrow> path_fingerprints (ns @ ms) i = path_fingerprints ns i"
  by (simp add: path_fingerprints_def path_of_append nth_append path_of_inside)

lemma path_of_root:
  "i < length ns \<Longrightarrow> parent (ns ! i) = None \<Longrightarrow> path_of ns i = [i]"
  by (subst path_of.simps) simp

lemma path_of_child:
  "i < length ns \<Longrightarrow> parent (ns ! i) = Some p \<Longrightarrow> p < i \<Longrightarrow> path_of ns i = path_of ns p @ [i]"
  by (subst path_of.simps) simp

lemma map_filter_append:
  "List.map_filter f (xs @ ys) = List.map_filter f xs @ List.map_filter f ys"
  by (simp add: List.map_filter_def)

lemma length_map_filter_single: "length (List.map_filter f [x]) \<le> Suc 0"
  by (simp add: List.map_filter_def)

subsection \<open>What a well-formed arena gives for every node\<close>

lemma wf_arena_node:
  assumes "wf_arena ns"
  shows "i < length ns \<Longrightarrow>
    distinct (path_fingerprints ns i) \<and> length (recipe_of ns i) \<le> node_depth (ns ! i)"
proof (induction i rule: less_induct)
  case (less i)
  show ?case
  proof (cases "parent (ns ! i)")
    case None
    then have "produced_by (ns ! i) = None"
      using assms less.prems by (auto simp: wf_arena_def)
    then show ?thesis
      using None less.prems
      by (simp add: path_fingerprints_def recipe_of_def path_of_root List.map_filter_def)
  next
    case (Some p)
    then have p: "p < i" and d: "node_depth (ns ! i) = Suc (node_depth (ns ! p))"
      and f: "fingerprint (ns ! i) \<notin> set (path_fingerprints ns p)"
      using assms less.prems by (auto simp: wf_arena_def split: option.splits)
    have "p < length ns" using p less.prems by simp
    with p have ih: "distinct (path_fingerprints ns p)"
      "length (recipe_of ns p) \<le> node_depth (ns ! p)"
      using less.IH by blast+
    have path: "path_of ns i = path_of ns p @ [i]"
      using less.prems Some p by (rule path_of_child)
    have "distinct (path_fingerprints ns i)"
      using ih(1) f by (simp add: path_fingerprints_def path)
    moreover have "length (recipe_of ns i) \<le> node_depth (ns ! i)"
    proof -
      let ?step = "\<lambda>j. case produced_by (ns ! j) of
                         None \<Rightarrow> None
                       | Some (op, args) \<Rightarrow> Some (op_name op, args)"
      have "length (recipe_of ns i)
          = length (recipe_of ns p) + length (List.map_filter ?step [i])"
        by (simp only: recipe_of_def path map_filter_append length_append)
      moreover have "length (List.map_filter ?step [i]) \<le> Suc 0"
        by (rule length_map_filter_single)
      ultimately show ?thesis using ih(2) d by linarith
    qed
    ultimately show ?thesis ..
  qed
qed

lemma wf_arena_snoc:
  assumes "wf_arena ns" and "p < length ns"
    and "fingerprint c \<notin> set (path_fingerprints ns p)"
    and "parent c = Some p" and "node_depth c = Suc (node_depth (ns ! p))"
  shows "wf_arena (ns @ [c])"
  unfolding wf_arena_def
proof (intro allI impI)
  fix i
  assume i: "i < length (ns @ [c])"
  show "case parent ((ns @ [c]) ! i) of
          None \<Rightarrow> produced_by ((ns @ [c]) ! i) = None
        | Some q \<Rightarrow> q < i \<and> node_depth ((ns @ [c]) ! i) = Suc (node_depth ((ns @ [c]) ! q))
                   \<and> fingerprint ((ns @ [c]) ! i) \<notin> set (path_fingerprints (ns @ [c]) q)"
  proof (cases "i < length ns")
    case True
    then have old: "case parent (ns ! i) of
          None \<Rightarrow> produced_by (ns ! i) = None
        | Some q \<Rightarrow> q < i \<and> node_depth (ns ! i) = Suc (node_depth (ns ! q))
                   \<and> fingerprint (ns ! i) \<notin> set (path_fingerprints ns q)"
      using assms(1) by (simp add: wf_arena_def)
    show ?thesis
    proof (cases "parent (ns ! i)")
      case None
      then show ?thesis using old True by (simp add: nth_append)
    next
      case (Some q)
      then have "q < i" using old by simp
      then have "q < length ns" using True by simp
      then show ?thesis
        using old Some True by (simp add: nth_append path_fingerprints_append)
    qed
  next
    case False
    then have "i = length ns" using i by simp
    then show ?thesis
      using assms(2-5) by (simp add: nth_append path_fingerprints_append)
  qed
qed

subsection \<open>Every step of the expansion keeps the arena well formed\<close>

lemma fold_preserves:
  "(\<And>x s. x \<in> set xs \<Longrightarrow> P s \<Longrightarrow> P (f x s)) \<Longrightarrow> P s \<Longrightarrow> P (fold f xs s)"
  by (induction xs arbitrary: s) auto

lemma level_inv_same:
  "nodes st' = nodes st \<Longrightarrow> next_level st' = next_level st \<Longrightarrow>
   level_inv j m st \<Longrightarrow> level_inv j m st'"
  by (simp add: level_inv_def)

lemma level_inv_add_child:
  assumes inv: "level_inv j m st" and p: "p < m"
    and fresh: "fp \<notin> set (path_fingerprints (nodes st) p)"
    and c: "c = \<lparr> buffer = b, parent = Some p, produced_by = pb,
                 node_depth = Suc (node_depth (nodes st ! p)), node_score = s,
                 fingerprint = fp \<rparr>"
    and st': "nodes st' = nodes st @ [c]"
      "next_level st' = next_level st @ [(length (nodes st), k)]"
  shows "level_inv j m st'"
proof -
  let ?ns = "nodes st"
  have wf: "wf_arena ?ns" and m: "m \<le> length ?ns"
    and low: "\<forall>i < m. node_depth (?ns ! i) \<le> j"
    and all: "\<forall>i < length ?ns. node_depth (?ns ! i) \<le> Suc j"
    and nl: "\<forall>e \<in> set (next_level st). fst e < length ?ns"
    using inv by (simp_all add: level_inv_def)
  have pl: "p < length ?ns" using p m by simp
  have "wf_arena (?ns @ [c])"
    using wf pl by (rule wf_arena_snoc) (simp_all add: c fresh)
  moreover have "m \<le> length (?ns @ [c])" using m by simp
  moreover have "\<forall>i < m. node_depth ((?ns @ [c]) ! i) \<le> j"
    using low m by (simp add: nth_append)
  moreover have "\<forall>i < length (?ns @ [c]). node_depth ((?ns @ [c]) ! i) \<le> Suc j"
  proof (intro allI impI)
    fix i assume "i < length (?ns @ [c])"
    then consider "i < length ?ns" | "i = length ?ns" by fastforce
    then show "node_depth ((?ns @ [c]) ! i) \<le> Suc j"
    proof cases
      case 1
      then show ?thesis using all by (simp add: nth_append)
    next
      case 2
      then show ?thesis using low p by (simp add: c)
    qed
  qed
  moreover have "\<forall>e \<in> set (next_level st @ [(length ?ns, k)]). fst e < length (?ns @ [c])"
    using nl by (auto simp: less_SucI)
  ultimately show ?thesis
    by (simp add: level_inv_def st')
qed

lemma try_child_level_inv:
  assumes inv: "level_inv j m st" and p: "p < m"
  shows "level_inv j m (try_child E cfg p op args st)"
proof -
  have pl: "p < length (nodes st)"
    using inv p by (simp add: level_inv_def)
  then have at: "node_at (nodes st) p = Some (nodes st ! p)"
    by (simp add: node_at_def)
  show ?thesis
  proof (cases "max_nodes E \<le> expansions st")
    case True
    then show ?thesis
      using at by (simp add: try_child_def level_inv_same [OF _ _ inv])
  next
    case budget: False
    show ?thesis
    proof (cases "invoke (registry E) (op_name op) args (buffer (nodes st ! p))")
      case (Inl err)
      then show ?thesis
        using at budget by (simp add: try_child_def level_inv_same [OF _ _ inv])
    next
      case (Inr b)
      let ?fp = "fingerprint_of E b (recipe_of (nodes st) p @ [(op_name op, args)])"
      let ?s = "score_of (kit E) (crib_regex cfg) (extensive_language_support cfg) b"
      show ?thesis
      proof (cases "?fp \<in> set (path_fingerprints (nodes st) p) \<or> ?fp \<in> set (seen st)")
        case True
        then show ?thesis
          using at budget Inr
          by (simp add: try_child_def Let_def level_inv_same [OF _ _ inv])
      next
        case fresh: False
        show ?thesis
        proof (cases "improves (kit E) ?s (node_score (nodes st ! p)) \<or> intensive cfg")
          case False
          then show ?thesis
            using at budget Inr fresh
            by (simp add: try_child_def Let_def level_inv_same [OF _ _ inv])
        next
          case True
          have "level_inv j m
            (st\<lparr> nodes := nodes st @
                   [\<lparr> buffer = b, parent = Some p, produced_by = Some (op, args),
                      node_depth = Suc (node_depth (nodes st ! p)), node_score = ?s,
                      fingerprint = ?fp \<rparr>],
                 seen := ?fp # seen st,
                 expansions := Suc (expansions st),
                 next_level := next_level st @ [(length (nodes st), rank (kit E) ?s)] \<rparr>)"
            using inv p by (rule level_inv_add_child) (use fresh in simp_all)
          then show ?thesis
            using at budget Inr fresh True
            by (simp add: try_child_def Let_def)
        qed
      qed
    qed
  qed
qed

lemma expand_node_level_inv:
  fixes st :: "('s, 'k) search_state"
  assumes inv: "level_inv j m st" and p: "p < m"
  shows "level_inv j m (expand_node E cfg token p st)"
proof -
  have folds: "level_inv j m
      (fold (\<lambda>op. fold (try_child E cfg p op) (arg_vectors E cfg op b)) ops st)" for b ops
  proof (rule fold_preserves [where P = "level_inv j m"])
    show "level_inv j m st" by (rule inv)
  next
    fix op and s :: "('s, 'k) search_state"
    assume s: "level_inv j m s"
    show "level_inv j m (fold (try_child E cfg p op) (arg_vectors E cfg op b) s)"
      by (rule fold_preserves [where P = "level_inv j m"])
        (simp_all add: s try_child_level_inv p)
  qed
  show ?thesis
    using inv folds
    by (simp add: expand_node_def level_inv_same [OF _ _ inv] split: option.splits)
qed

lemma expand_depth_level_inv:
  fixes st :: "('s, 'k) search_state"
  assumes wf: "wf_arena (nodes st)"
    and low: "\<forall>i < length (nodes st). node_depth (nodes st ! i) \<le> j"
    and fr: "\<forall>p \<in> set frontier. p < length (nodes st)"
  shows "level_inv j (length (nodes st)) (expand_depth E cfg token frontier st)"
  unfolding expand_depth_def
proof (rule fold_preserves [where P = "level_inv j (length (nodes st))"])
  show "level_inv j (length (nodes st)) (st\<lparr> next_level := [] \<rparr>)"
    using wf low by (simp add: level_inv_def le_SucI)
next
  fix p and s :: "('s, 'k) search_state"
  assume "p \<in> set frontier" and "level_inv j (length (nodes st)) s"
  then show "level_inv j (length (nodes st)) (expand_node E cfg token p s)"
    using fr by (intro expand_node_level_inv) simp_all
qed

lemma search_levels_arena:
  "wf_arena (nodes st) \<Longrightarrow>
   \<forall>i < length (nodes st). node_depth (nodes st ! i) \<le> j \<Longrightarrow>
   \<forall>p \<in> set frontier. p < length (nodes st) \<Longrightarrow>
   wf_arena (nodes (search_levels E cfg token k frontier st))
   \<and> (\<forall>i < length (nodes (search_levels E cfg token k frontier st)).
         node_depth (nodes (search_levels E cfg token k frontier st) ! i) \<le> j + k)"
proof (induction k arbitrary: j frontier st)
  case 0
  then show ?case by simp
next
  case (Suc k)
  let ?st' = "expand_depth E cfg token frontier st"
  let ?kept = "take (keep_top_k E) (sort_key snd (next_level ?st'))"
  let ?st'' = "?st'\<lparr> survivors := survivors ?st' @ ?kept \<rparr>"
  have inv: "level_inv j (length (nodes st)) ?st'"
    using Suc.prems by (rule expand_depth_level_inv)
  then have wf: "wf_arena (nodes ?st'')"
    and low: "\<forall>i < length (nodes ?st''). node_depth (nodes ?st'' ! i) \<le> Suc j"
    and nl: "\<forall>e \<in> set (next_level ?st'). fst e < length (nodes ?st'')"
    by (simp_all add: level_inv_def)
  have "set ?kept \<subseteq> set (next_level ?st')"
    using set_take_subset [of "keep_top_k E" "sort_key snd (next_level ?st')"] by simp
  then have fr: "\<forall>p \<in> set (map fst ?kept). p < length (nodes ?st'')"
    using nl by auto
  show ?case
  proof (cases "?kept = [] \<or> st_truncated ?st' \<or> st_cancelled ?st'")
    case True
    have eq: "search_levels E cfg token (Suc k) frontier st = ?st''"
      by (simp only: search_levels.simps Let_def True if_True)
    have "\<forall>i < length (nodes ?st''). node_depth (nodes ?st'' ! i) \<le> j + Suc k"
    proof (intro allI impI)
      fix i
      assume "i < length (nodes ?st'')"
      then have "node_depth (nodes ?st'' ! i) \<le> Suc j" using low by blast
      then show "node_depth (nodes ?st'' ! i) \<le> j + Suc k" by simp
    qed
    then show ?thesis using wf by (simp only: eq)
  next
    case False
    have eq: "search_levels E cfg token (Suc k) frontier st
        = search_levels E cfg token k (map fst ?kept) ?st''"
      by (simp only: search_levels.simps Let_def False if_False)
    show ?thesis using Suc.IH [OF wf low fr] by (simp only: eq) simp
  qed
qed

subsection \<open>The whole search\<close>

lemma search_arena:
  "wf_arena (nodes (search E cfg token input))
   \<and> (\<forall>i < length (nodes (search E cfg token input)).
         node_depth (nodes (search E cfg token input) ! i) \<le> nat (depth cfg))"
proof -
  let ?st = "initial_state E cfg input"
  have wf: "wf_arena (nodes ?st)"
    by (simp add: initial_state_def Let_def wf_arena_def)
  have low: "\<forall>i < length (nodes ?st). node_depth (nodes ?st ! i) \<le> 0"
    by (simp add: initial_state_def Let_def)
  have fr: "\<forall>p \<in> set [0]. p < length (nodes ?st)"
    by (simp add: initial_state_def Let_def)
  show ?thesis
    using search_levels_arena [OF wf low fr, of E cfg token "nat (depth cfg)"]
    by (simp add: search_def)
qed

lemma arena_node_bounded:
  assumes wf: "wf_arena ns" and low: "\<forall>i < length ns. node_depth (ns ! i) \<le> d"
  shows "distinct (path_fingerprints ns i) \<and> length (recipe_of ns i) \<le> d"
proof (cases "i < length ns")
  case True
  then have "distinct (path_fingerprints ns i)"
    and "length (recipe_of ns i) \<le> node_depth (ns ! i)"
    using wf_arena_node [OF wf] by blast+
  moreover have "node_depth (ns ! i) \<le> d" using low True by blast
  ultimately show ?thesis by simp
next
  case False
  then show ?thesis
    by (simp add: path_fingerprints_def recipe_of_def path_of_outside List.map_filter_def)
qed

lemma run_engine_Inr:
  "run_engine E token input cfg = Inr (st, res) \<Longrightarrow>
   0 \<le> depth cfg \<and> st = search E cfg token input \<and> res = result_set E st"
  by (auto simp: run_engine_def Let_def split: if_splits)

lemma run_engine_nodes:
  assumes "run_engine E token input cfg = Inr (st, res)"
  shows "distinct (path_fingerprints (nodes st) i)
         \<and> int (length (recipe_of (nodes st) i)) \<le> depth cfg"
proof -
  have d: "0 \<le> depth cfg" and st: "st = search E cfg token input"
    using run_engine_Inr [OF assms] by simp_all
  have "distinct (path_fingerprints (nodes st) i)
        \<and> length (recipe_of (nodes st) i) \<le> nat (depth cfg)"
    unfolding st using search_arena [of E cfg token input]
    by (intro arena_node_bounded) simp_all
  then show ?thesis using d by linarith
qed

lemma candidate_of_recipe:
  "candidate_of E cfg ns i = Some c \<Longrightarrow> recipe c = recipe_of ns i"
  by (auto simp: candidate_of_def split: option.splits)

lemma in_map_filter: "y \<in> set (List.map_filter f xs) \<Longrightarrow> \<exists>x \<in> set xs. f x = Some y"
  by (auto simp: List.map_filter_def)

lemma analyze_candidate:
  assumes a: "analyze E token input cfg = Inr r" and c: "c \<in> set (candidates r)"
  shows "\<exists>st res i. run_engine E token input cfg = Inr (st, res) \<and> i \<in> set res
           \<and> recipe c = recipe_of (nodes st) i"
proof (cases "input = []")
  case True
  with a c show ?thesis by (auto simp: analyze_def)
next
  case False
  with a obtain st res where run: "run_engine E token input cfg = Inr (st, res)"
    and r: "candidates r = List.map_filter (candidate_of E cfg (nodes st)) res"
    by (auto simp: analyze_def split: sum.splits)
  from c r obtain i where i: "i \<in> set res" and "candidate_of E cfg (nodes st) i = Some c"
    using in_map_filter by fastforce
  then have "recipe c = recipe_of (nodes st) i"
    using candidate_of_recipe by blast
  with run i show ?thesis by blast
qed

text \<open>
  C7. For every input and every configuration, every node of the result set has pairwise
  different fingerprints on its path from the root and a recipe no longer than the
  configured depth; and every candidate of the report carries the recipe of such a node,
  so its recipe is acyclic and no longer than the configured depth.
\<close>

theorem magic_recipes_acyclic_and_bounded:
  "(run_engine E token input cfg = Inr (st, res) \<longrightarrow>
      (\<forall>i \<in> set res. distinct (path_fingerprints (nodes st) i)
                      \<and> int (length (recipe_of (nodes st) i)) \<le> depth cfg))
   \<and> (analyze E token input cfg = Inr r \<longrightarrow>
      (\<forall>c \<in> set (candidates r).
          int (length (recipe c)) \<le> depth cfg
          \<and> (\<exists>st' res' i. run_engine E token input cfg = Inr (st', res') \<and> i \<in> set res'
                 \<and> recipe c = recipe_of (nodes st') i
                 \<and> distinct (path_fingerprints (nodes st') i))))"
proof -
  have nodes_ok: "run_engine E token input cfg = Inr (st, res) \<longrightarrow>
      (\<forall>i \<in> set res. distinct (path_fingerprints (nodes st) i)
                      \<and> int (length (recipe_of (nodes st) i)) \<le> depth cfg)"
    using run_engine_nodes [of E token input cfg st res] by blast
  have report_ok: "analyze E token input cfg = Inr r \<longrightarrow>
      (\<forall>c \<in> set (candidates r).
          int (length (recipe c)) \<le> depth cfg
          \<and> (\<exists>st' res' i. run_engine E token input cfg = Inr (st', res') \<and> i \<in> set res'
                 \<and> recipe c = recipe_of (nodes st') i
                 \<and> distinct (path_fingerprints (nodes st') i)))"
  proof (intro impI ballI)
    fix c
    assume a: "analyze E token input cfg = Inr r" and c: "c \<in> set (candidates r)"
    from analyze_candidate [OF a c]
    obtain st' res' i where run: "run_engine E token input cfg = Inr (st', res')"
      and i: "i \<in> set res'" and rc: "recipe c = recipe_of (nodes st') i"
      by blast
    have ok: "distinct (path_fingerprints (nodes st') i)
        \<and> int (length (recipe_of (nodes st') i)) \<le> depth cfg"
      using run by (rule run_engine_nodes)
    show "int (length (recipe c)) \<le> depth cfg
          \<and> (\<exists>st' res' i. run_engine E token input cfg = Inr (st', res') \<and> i \<in> set res'
                 \<and> recipe c = recipe_of (nodes st') i
                 \<and> distinct (path_fingerprints (nodes st') i))"
      using run i rc ok by auto
  qed
  show ?thesis using nodes_ok report_ok by (rule conjI)
qed

text \<open>
  The theorem on the small engine, at depth 2 in intensive mode on the bytes 1, 2, 3. The
  one interesting node is reached by dropping the first byte twice; reversing twice would
  return to the root's bytes and is rejected as a cycle.
\<close>

theorem magic_recipes_acyclic_and_bounded_witness:
  "\<exists>st res r.
     run_engine small_engine None [1, 2, 3] intensive_depth_2 = Inr (st, res)
     \<and> analyze small_engine None [1, 2, 3] intensive_depth_2 = Inr r
     \<and> map (recipe_of (nodes st)) res = [[(''Drop First'', []), (''Drop First'', [])]]
     \<and> map recipe (candidates r) = [[(''Drop First'', []), (''Drop First'', [])]]
     \<and> (\<forall>i \<in> set res. distinct (path_fingerprints (nodes st) i)
                      \<and> int (length (recipe_of (nodes st) i)) \<le> 2)
     \<and> (\<forall>c \<in> set (candidates r). int (length (recipe c)) \<le> 2)"
proof -
  have e1: "(case run_engine small_engine None [1, 2, 3] intensive_depth_2 of
               Inl e \<Rightarrow> []
             | Inr (st, res) \<Rightarrow> map (recipe_of (nodes st)) res)
            = [[(''Drop First'', []), (''Drop First'', [])]]"
    by code_simp
  have e2: "(case analyze small_engine None [1, 2, 3] intensive_depth_2 of
               Inl e \<Rightarrow> []
             | Inr r \<Rightarrow> map recipe (candidates r))
            = [[(''Drop First'', []), (''Drop First'', [])]]"
    by code_simp
  obtain st res where run: "run_engine small_engine None [1, 2, 3] intensive_depth_2 = Inr (st, res)"
    using e1 by (cases "run_engine small_engine None [1, 2, 3] intensive_depth_2") auto
  obtain r where an: "analyze small_engine None [1, 2, 3] intensive_depth_2 = Inr r"
    using e2 by (cases "analyze small_engine None [1, 2, 3] intensive_depth_2") auto
  have d: "depth intensive_depth_2 = 2"
    by (simp add: intensive_depth_2_def)
  note t = magic_recipes_acyclic_and_bounded
    [where E = small_engine and token = None and input = "[1, 2, 3]"
       and cfg = intensive_depth_2 and st = st and res = res and r = r]
  have f1: "\<forall>i \<in> set res. distinct (path_fingerprints (nodes st) i)
                      \<and> int (length (recipe_of (nodes st) i)) \<le> 2"
    using t run d by simp
  have f2: "\<forall>c \<in> set (candidates r). int (length (recipe c)) \<le> 2"
    using t an d by simp
  have f3: "map (recipe_of (nodes st)) res = [[(''Drop First'', []), (''Drop First'', [])]]"
    using e1 run by simp
  have f4: "map recipe (candidates r) = [[(''Drop First'', []), (''Drop First'', [])]]"
    using e2 an by simp
  show ?thesis
    using run an f3 f4 f1 f2
    by (intro exI [of _ st] exI [of _ res] exI [of _ r] conjI) assumption+
qed

section \<open>The Magic analyzer: the empty input\<close>

text \<open>
  C1. For every engine, cancellation token and target regex, the analysis of the empty
  input with depth 3, not intensive and without extensive language support returns a
  report (not an error) that has no candidates, and the formatted report is exactly the
  text \<^verbatim>\<open>Nothing of interest could be detected about the input data.\<close>, a line feed,
  \<^verbatim>\<open>Have you tried modifying the operation arguments?\<close>.
\<close>

theorem magic_empty_input:
  "analyze E token []
     \<lparr> depth = 3, intensive = False, extensive_language_support = False, crib_regex = crib \<rparr>
     = Inr \<lparr> candidates = [], truncated = False, cancelled = False \<rparr>
   \<and> format_report render \<lparr> candidates = [], truncated = False, cancelled = False \<rparr>
     = ''Nothing of interest could be detected about the input data.\<newline>Have you tried modifying the operation arguments?''"
  by (simp add: analyze_def format_report_def nothing_of_interest_def)

end
